theory Spec2Isabelle
  imports Complex_Main "HOL-Library.Word"
begin

section \<open>Shared vocabulary: Go errors, instants and durations\<close>

text \<open>
  A Go \<^verbatim>\<open>error\<close> value is either a sentinel made by \<^verbatim>\<open>errors.New\<close> (compared by
  identity; the message stands for the identity here, the sentinels of the repository
  having pairwise different messages) or an error that wraps another one
  (\<^verbatim>\<open>fmt.Errorf("...%w", err)\<close>). A nil error is \<open>None\<close> of \<open>goerror option\<close>.
\<close>

datatype goerror = ErrorNew string | ErrorWrap string goerror

text \<open>\<^verbatim>\<open>errors.Is(err, target)\<close>: walks the unwrap chain of \<open>err\<close>, comparing with \<open>==\<close>.\<close>

fun errorsIs :: "goerror \<Rightarrow> goerror \<Rightarrow> bool" where
  "errorsIs (ErrorNew s) target = (ErrorNew s = target)"
| "errorsIs (ErrorWrap m e) target = (ErrorWrap m e = target \<or> errorsIs e target)"

text \<open>
  A \<^verbatim>\<open>time.Time\<close> is an instant counted in nanoseconds from the zero instant
  (\<^verbatim>\<open>IsZero\<close> is \<open>t = 0\<close>, \<^verbatim>\<open>Before\<close> is \<open><\<close>, \<^verbatim>\<open>Add\<close> is \<open>+\<close>); a
  \<^verbatim>\<open>time.Duration\<close> is a count of nanoseconds. Every read of \<^verbatim>\<open>time.Now()\<close> is a
  parameter of the function that reads it.
\<close>

type_synonym Time = int
type_synonym Duration = int

definition Millisecond :: Duration where
  "Millisecond = 1000000"

definition Second :: Duration where
  "Second = 1000000000"

definition Minute :: Duration where
  "Minute = 60000000000"

section \<open>Package circuitbreaker (backend/pkg/circuitbreaker/breaker.go)\<close>

definition ErrCircuitOpen :: goerror where
  "ErrCircuitOpen = ErrorNew ''circuit breaker is open''"

definition ErrTooManyRequests :: goerror where
  "ErrTooManyRequests = ErrorNew ''too many requests in half-open state''"

datatype State = StateClosed | StateHalfOpen | StateOpen

record counts =
  Requests :: "32 word"
  TotalSuccesses :: "32 word"
  TotalFailures :: "32 word"
  ConsecutiveSuccesses :: "32 word"
  ConsecutiveFailures :: "32 word"

text \<open>The zero value \<^verbatim>\<open>counts{}\<close>.\<close>

definition counts_zero :: counts where
  "counts_zero = \<lparr>Requests = 0, TotalSuccesses = 0, TotalFailures = 0,
     ConsecutiveSuccesses = 0, ConsecutiveFailures = 0\<rparr>"

record circuitbreaker_Config =
  MaxRequests :: "32 word"
  Interval :: Duration
  Timeout :: Duration
  FailureThreshold :: "32 word"
  SuccessThreshold :: "32 word"

text \<open>
  The breaker's fields, the mutex apart (every method below is one critical section).
  The name and the logger only label log lines and are left out; the effect of the
  \<^verbatim>\<open>onStateChange\<close> callback is the list \<open>notified\<close> of the \<open>(from, to)\<close> pairs it
  is called with, in order.
\<close>

record CircuitBreaker =
  maxRequests :: "32 word"
  interval :: Duration
  timeout :: Duration
  failureThreshold :: "32 word"
  successThreshold :: "32 word"
  state :: State
  generation :: "64 word"
  counts :: counts
  expiry :: Time
  notified :: "(State \<times> State) list"

definition toNewGeneration :: "CircuitBreaker \<Rightarrow> Time \<Rightarrow> CircuitBreaker" where
  "toNewGeneration cb now =
     cb\<lparr>generation := generation cb + 1,
        counts := counts_zero,
        expiry := (case state cb of
                     StateClosed \<Rightarrow> (if interval cb = 0 then 0 else now + interval cb)
                   | StateOpen \<Rightarrow> now + timeout cb
                   | StateHalfOpen \<Rightarrow> 0)\<rparr>"

definition setState :: "CircuitBreaker \<Rightarrow> State \<Rightarrow> Time \<Rightarrow> CircuitBreaker" where
  "setState cb s now =
     (if state cb = s then cb
      else let prev = state cb;
               cb1 = toNewGeneration (cb\<lparr>state := s\<rparr>) now
           in cb1\<lparr>notified := notified cb1 @ [(prev, s)]\<rparr>)"

text \<open>
  \<^verbatim>\<open>currentState\<close> returns the state and the generation, and leaves the breaker
  changed when a lazy transition was due: the first component is the breaker afterwards.
\<close>

definition currentState :: "CircuitBreaker \<Rightarrow> Time \<Rightarrow> CircuitBreaker \<times> State \<times> 64 word" where
  "currentState cb now =
     (let cb1 = (case state cb of
                   StateClosed \<Rightarrow>
                     (if expiry cb \<noteq> 0 \<and> expiry cb < now then toNewGeneration cb now else cb)
                 | StateOpen \<Rightarrow>
                     (if expiry cb < now then setState cb StateHalfOpen now else cb)
                 | StateHalfOpen \<Rightarrow> cb)
      in (cb1, state cb1, generation cb1))"

definition onSuccess :: "CircuitBreaker \<Rightarrow> State \<Rightarrow> Time \<Rightarrow> CircuitBreaker" where
  "onSuccess cb st now =
     (let c = counts cb;
          cb1 = cb\<lparr>counts := c\<lparr>TotalSuccesses := TotalSuccesses c + 1,
                                ConsecutiveSuccesses := ConsecutiveSuccesses c + 1,
                                ConsecutiveFailures := 0\<rparr>\<rparr>
      in if st = StateHalfOpen \<and> successThreshold cb1 \<le> ConsecutiveSuccesses (counts cb1)
         then setState cb1 StateClosed now
         else cb1)"

definition onFailure :: "CircuitBreaker \<Rightarrow> State \<Rightarrow> Time \<Rightarrow> CircuitBreaker" where
  "onFailure cb st now =
     (let c = counts cb;
          cb1 = cb\<lparr>counts := c\<lparr>TotalFailures := TotalFailures c + 1,
                                ConsecutiveFailures := ConsecutiveFailures c + 1,
                                ConsecutiveSuccesses := 0\<rparr>\<rparr>
      in if st = StateClosed \<and> failureThreshold cb1 \<le> ConsecutiveFailures (counts cb1)
         then setState cb1 StateOpen now
         else if st = StateHalfOpen then setState cb1 StateOpen now
         else cb1)"

text \<open>
  \<^verbatim>\<open>beforeRequest\<close> returns the breaker afterwards, the generation and the error
  (\<open>None\<close> is nil: the call is admitted).
\<close>

definition beforeRequest :: "CircuitBreaker \<Rightarrow> Time \<Rightarrow> CircuitBreaker \<times> 64 word \<times> goerror option" where
  "beforeRequest cb now =
     (case currentState cb now of (cb1, st, gen) \<Rightarrow>
        if st = StateOpen then (cb1, gen, Some ErrCircuitOpen)
        else if st = StateHalfOpen \<and> maxRequests cb1 \<le> Requests (counts cb1)
        then (cb1, gen, Some ErrTooManyRequests)
        else (cb1\<lparr>counts := (counts cb1)\<lparr>Requests := Requests (counts cb1) + 1\<rparr>\<rparr>, gen, None))"

definition afterRequest :: "CircuitBreaker \<Rightarrow> 64 word \<Rightarrow> bool \<Rightarrow> Time \<Rightarrow> CircuitBreaker" where
  "afterRequest cb beforeGen success now =
     (case currentState cb now of (cb1, st, gen) \<Rightarrow>
        if gen \<noteq> beforeGen then cb1
        else if success then onSuccess cb1 st now
        else onFailure cb1 st now)"

text \<open>
  \<^verbatim>\<open>NewCircuitBreaker\<close>: the zero fields of the configuration get their defaults, and
  the first generation starts at the instant \<open>now\<close>.
\<close>

definition NewCircuitBreaker :: "circuitbreaker_Config \<Rightarrow> Time \<Rightarrow> CircuitBreaker" where
  "NewCircuitBreaker cfg now =
     toNewGeneration
       \<lparr>maxRequests = (if MaxRequests cfg = 0 then 1 else MaxRequests cfg),
        interval = Interval cfg,
        timeout = (if Timeout cfg = 0 then 60 * Second else Timeout cfg),
        failureThreshold = (if FailureThreshold cfg = 0 then 5 else FailureThreshold cfg),
        successThreshold = (if SuccessThreshold cfg = 0 then 2 else SuccessThreshold cfg),
        state = StateClosed,
        generation = 0,
        counts = counts_zero,
        expiry = 0,
        notified = []\<rparr>
       now"



text \<open>
  A spy around an operation, as a test would write it: the world gets a counter that
  every invocation increments.
\<close>

definition counted :: "('w \<Rightarrow> 'r \<times> 'w) \<Rightarrow> 'w \<times> nat \<Rightarrow> 'r \<times> ('w \<times> nat)" where
  "counted f = (\<lambda>(w, n). case f w of (r, w') \<Rightarrow> (r, (w', Suc n)))"

text \<open>
  The two conditions under which \<^verbatim>\<open>currentState\<close> changes the breaker before it
  answers: a closed breaker whose non-zero expiry is before \<open>now\<close>, and an open one
  whose expiry is before \<open>now\<close>.
\<close>

definition lazyTransitionDue :: "CircuitBreaker \<Rightarrow> Time \<Rightarrow> bool" where
  "lazyTransitionDue cb now =
     (case state cb of
        StateClosed \<Rightarrow> expiry cb \<noteq> 0 \<and> expiry cb < now
      | StateOpen \<Rightarrow> expiry cb < now
      | StateHalfOpen \<Rightarrow> False)"

subsection \<open>Breakers used as concrete inputs\<close>

definition exampleConfig :: circuitbreaker_Config where
  "exampleConfig = \<lparr>MaxRequests = 1, Interval = 50, Timeout = 60, FailureThreshold = 5,
     SuccessThreshold = 2\<rparr>"

text \<open>
  A closed breaker in its second generation (the first one ended by the interval), with
  one call admitted and one failure recorded; its interval ends at 110.
\<close>

definition staleScenario :: CircuitBreaker where
  "staleScenario = \<lparr>maxRequests = 1, interval = 50, timeout = 60, failureThreshold = 5,
     successThreshold = 2, state = StateClosed, generation = 2,
     counts = \<lparr>Requests = 1, TotalSuccesses = 0, TotalFailures = 1,
                ConsecutiveSuccesses = 0, ConsecutiveFailures = 1\<rparr>,
     expiry = 110, notified = []\<rparr>"

text \<open>A closed breaker that opens at the first failure, with one call admitted.\<close>

definition closedScenario :: CircuitBreaker where
  "closedScenario = \<lparr>maxRequests = 1, interval = 0, timeout = 60, failureThreshold = 1,
     successThreshold = 2, state = StateClosed, generation = 1,
     counts = \<lparr>Requests = 1, TotalSuccesses = 0, TotalFailures = 0,
                ConsecutiveSuccesses = 0, ConsecutiveFailures = 0\<rparr>,
     expiry = 0, notified = []\<rparr>"

text \<open>The same breaker once that failure, recorded at 40, has opened it until 100.\<close>

definition openScenario :: CircuitBreaker where
  "openScenario = \<lparr>maxRequests = 1, interval = 0, timeout = 60, failureThreshold = 1,
     successThreshold = 2, state = StateOpen, generation = 2, counts = counts_zero,
     expiry = 100, notified = [(StateClosed, StateOpen)]\<rparr>"

text \<open>And once a call at 101 has been admitted as the only probe.\<close>

definition halfOpenScenario :: CircuitBreaker where
  "halfOpenScenario = \<lparr>maxRequests = 1, interval = 0, timeout = 60, failureThreshold = 1,
     successThreshold = 2, state = StateHalfOpen, generation = 3,
     counts = \<lparr>Requests = 1, TotalSuccesses = 0, TotalFailures = 0,
                ConsecutiveSuccesses = 0, ConsecutiveFailures = 0\<rparr>,
     expiry = 0, notified = [(StateClosed, StateOpen), (StateOpen, StateHalfOpen)]\<rparr>"

text \<open>
  A breaker that opens at the second consecutive failure and closes again at the second
  consecutive success, with up to two probes: closed with two calls admitted; after the
  first of them has failed at 40; open until 110 after the second has failed at 50;
  half-open with two probes admitted at 111 and 112; after the first probe has succeeded
  at 120; and closed again after the second has succeeded at 130.
\<close>

definition twoFailuresConfig :: circuitbreaker_Config where
  "twoFailuresConfig = \<lparr>MaxRequests = 2, Interval = 0, Timeout = 60, FailureThreshold = 2,
     SuccessThreshold = 2\<rparr>"

definition closedTwoAdmitted :: CircuitBreaker where
  "closedTwoAdmitted = \<lparr>maxRequests = 2, interval = 0, timeout = 60, failureThreshold = 2,
     successThreshold = 2, state = StateClosed, generation = 1,
     counts = \<lparr>Requests = 2, TotalSuccesses = 0, TotalFailures = 0,
                ConsecutiveSuccesses = 0, ConsecutiveFailures = 0\<rparr>,
     expiry = 0, notified = []\<rparr>"

definition closedOneFailure :: CircuitBreaker where
  "closedOneFailure = closedTwoAdmitted\<lparr>counts :=
     \<lparr>Requests = 2, TotalSuccesses = 0, TotalFailures = 1,
      ConsecutiveSuccesses = 0, ConsecutiveFailures = 1\<rparr>\<rparr>"

definition openedAtFifty :: CircuitBreaker where
  "openedAtFifty = closedTwoAdmitted\<lparr>state := StateOpen, generation := 2, counts := counts_zero,
     expiry := 110, notified := [(StateClosed, StateOpen)]\<rparr>"

definition probing :: CircuitBreaker where
  "probing = closedTwoAdmitted\<lparr>state := StateHalfOpen, generation := 3,
     notified := [(StateClosed, StateOpen), (StateOpen, StateHalfOpen)]\<rparr>"

definition probingOneSuccess :: CircuitBreaker where
  "probingOneSuccess = probing\<lparr>counts :=
     \<lparr>Requests = 2, TotalSuccesses = 1, TotalFailures = 0,
      ConsecutiveSuccesses = 1, ConsecutiveFailures = 0\<rparr>\<rparr>"

definition closedAgain :: CircuitBreaker where
  "closedAgain = probing\<lparr>state := StateClosed, generation := 4, counts := counts_zero,
     notified := [(StateClosed, StateOpen), (StateOpen, StateHalfOpen),
                  (StateHalfOpen, StateClosed)]\<rparr>"


section \<open>Package retry (in backend/internal/middleware/ratelimit/ratelimit.go)\<close>

text \<open>
  The two \<^verbatim>\<open>float64\<close> fields are real numbers here, and a product of \<^verbatim>\<open>float64\<close>s
  is the exact product: rounding is not modelled. The conversion of a \<^verbatim>\<open>float64\<close>
  to a \<^verbatim>\<open>time.Duration\<close> truncates towards zero.
\<close>

definition truncToInt :: "real \<Rightarrow> int" where
  "truncToInt x = (if 0 \<le> x then \<lfloor>x\<rfloor> else \<lceil>x\<rceil>)"

record retry_Config =
  MaxAttempts :: int
  InitialDelay :: Duration
  MaxDelay :: Duration
  Multiplier :: real
  JitterFraction :: real
  RetryableErrors :: "goerror list"

definition DefaultConfig :: retry_Config where
  "DefaultConfig = \<lparr>MaxAttempts = 3, InitialDelay = 100 * Millisecond, MaxDelay = 10 * Second,
     Multiplier = 2, JitterFraction = 1 / 10, RetryableErrors = []\<rparr>"

definition isRetryable :: "goerror \<Rightarrow> goerror list \<Rightarrow> bool" where
  "isRetryable e retryableErrors =
     (if length retryableErrors = 0 then True
      else list_ex (\<lambda>retryableErr. errorsIs e retryableErr) retryableErrors)"

text \<open>
  \<^verbatim>\<open>addJitter\<close> draws twice from the random source when \<open>jitterFraction > 0\<close>:
  \<open>u\<close> is the value of \<^verbatim>\<open>rand.Float64()\<close> (in \<open>[0, 1)\<close>) and \<open>coin\<close> the value of
  \<^verbatim>\<open>rand.Intn(2)\<close>. The source has no clamp on either branch.
\<close>

definition addJitter :: "Duration \<Rightarrow> real \<Rightarrow> real \<times> nat \<Rightarrow> Duration" where
  "addJitter duration jitterFraction draw =
     (case draw of (u, coin) \<Rightarrow>
        if jitterFraction \<le> 0 then duration
        else let jitter = truncToInt (u * real_of_int duration * jitterFraction)
             in if coin = 0 then duration - jitter else duration + jitter)"

text \<open>
  The context as \<^verbatim>\<open>Do\<close> observes it: whether \<^verbatim>\<open>ctx.Done()\<close> is closed at the poll
  that opens attempt \<open>k\<close>, whether the \<^verbatim>\<open>select\<close> after attempt \<open>k\<close> takes the
  \<^verbatim>\<open>ctx.Done()\<close> branch rather than the timer's, and the value of \<^verbatim>\<open>ctx.Err()\<close>.
\<close>

record Context =
  doneAtPoll :: "int \<Rightarrow> bool"
  doneInWait :: "int \<Rightarrow> bool"
  ctxErr :: goerror

definition Background :: Context where
  "Background = \<lparr>doneAtPoll = (\<lambda>k. False), doneInWait = (\<lambda>k. False),
     ctxErr = ErrorNew ''context canceled''\<rparr>"

text \<open>
  The result of \<^verbatim>\<open>Do\<close>: the error returned, the world the operation left, and the
  durations handed to \<^verbatim>\<open>time.After\<close>, in order.
\<close>

record 'w DoResult =
  err :: "goerror option"
  world :: 'w
  slept :: "Duration list"

text \<open>
  The loop of \<^verbatim>\<open>Do\<close>, from the head of the iteration for \<open>attempt\<close>. The operation
  acts on a world \<open>'w\<close> and returns nil (\<open>None\<close>) or an error; \<open>rnd k\<close> holds the
  random draws of the wait after attempt \<open>k\<close>.
\<close>

function DoLoop ::
  "Context \<Rightarrow> retry_Config \<Rightarrow> (int \<Rightarrow> real \<times> nat) \<Rightarrow> ('w \<Rightarrow> goerror option \<times> 'w) \<Rightarrow>
   int \<Rightarrow> Duration \<Rightarrow> goerror option \<Rightarrow> 'w \<Rightarrow> Duration list \<Rightarrow> 'w DoResult" where
  "DoLoop ctx cfg rnd operation attempt delay lastErr w zs =
     (if attempt \<le> MaxAttempts cfg then
        if doneAtPoll ctx attempt then \<lparr>err = Some (ctxErr ctx), world = w, slept = zs\<rparr>
        else (case operation w of
                (None, w') \<Rightarrow> \<lparr>err = None, world = w', slept = zs\<rparr>
              | (Some e, w') \<Rightarrow>
                  if \<not> isRetryable e (RetryableErrors cfg)
                  then \<lparr>err = Some e, world = w', slept = zs\<rparr>
                  else if attempt = MaxAttempts cfg
                  then \<lparr>err = Some e, world = w', slept = zs\<rparr>
                  else if doneInWait ctx attempt
                  then \<lparr>err = Some (ctxErr ctx), world = w', slept = zs\<rparr>
                  else DoLoop ctx cfg rnd operation (attempt + 1)
                         (truncToInt (min (real_of_int (MaxDelay cfg))
                                          (real_of_int delay * Multiplier cfg)))
                         (Some e) w'
                         (zs @ [addJitter delay (JitterFraction cfg) (rnd attempt)]))
      else \<lparr>err = lastErr, world = w, slept = zs\<rparr>)"
  by pat_completeness auto
termination
  by (relation "measure (\<lambda>(ctx, cfg, rnd, operation, attempt, delay, lastErr, w, zs).
        nat (MaxAttempts cfg + 1 - attempt))") auto

declare DoLoop.simps [simp del]

text \<open>The head of \<^verbatim>\<open>Do\<close>: the zero fields of the configuration get their defaults.\<close>

definition withDefaults :: "retry_Config \<Rightarrow> retry_Config" where
  "withDefaults cfg =
     (let cfg1 = (if MaxAttempts cfg = 0 then cfg\<lparr>MaxAttempts := 3\<rparr> else cfg);
          cfg2 = (if InitialDelay cfg1 = 0 then cfg1\<lparr>InitialDelay := 100 * Millisecond\<rparr>
                  else cfg1);
          cfg3 = (if MaxDelay cfg2 = 0 then cfg2\<lparr>MaxDelay := 10 * Second\<rparr> else cfg2)
      in if Multiplier cfg3 = 0 then cfg3\<lparr>Multiplier := 2\<rparr> else cfg3)"

definition Do ::
  "Context \<Rightarrow> retry_Config \<Rightarrow> (int \<Rightarrow> real \<times> nat) \<Rightarrow> ('w \<Rightarrow> goerror option \<times> 'w) \<Rightarrow> 'w \<Rightarrow>
   'w DoResult" where
  "Do ctx cfg rnd operation w =
     (let cfg' = withDefaults cfg
      in DoLoop ctx cfg' rnd operation 1 (InitialDelay cfg') None w [])"

text \<open>The world after \<open>k\<close> invocations of the operation in a row.\<close>

fun invoked :: "('w \<Rightarrow> goerror option \<times> 'w) \<Rightarrow> nat \<Rightarrow> 'w \<Rightarrow> 'w" where
  "invoked operation 0 w = w"
| "invoked operation (Suc k) w = invoked operation k (snd (operation w))"

text \<open>A context that is never done, at any poll or wait of \<^verbatim>\<open>Do\<close>.\<close>

definition nonCancelled :: "Context \<Rightarrow> bool" where
  "nonCancelled ctx = (\<forall>k. \<not> doneAtPoll ctx k \<and> \<not> doneInWait ctx k)"

subsection \<open>Operations and draws used as concrete inputs\<close>

text \<open>
  An operation that fails at every invocation, with a different error at each of the
  first three; its world is the number of invocations so far.
\<close>

definition alwaysFails :: "nat \<Rightarrow> goerror option \<times> nat" where
  "alwaysFails w =
     (Some (ErrorNew (if w = 0 then ''e1'' else if w = 1 then ''e2'' else ''e3'')), Suc w)"

text \<open>A random source that draws \<open>0.5\<close> and the subtractive branch at every wait.\<close>

definition halves :: "int \<Rightarrow> real \<times> nat" where
  "halves k = (1 / 2, 0)"

section \<open>Package ratelimit (backend/internal/middleware/ratelimit/ratelimit.go)\<close>

text \<open>
  \<^verbatim>\<open>int\<close> and \<^verbatim>\<open>time.Duration\<close> are 64-bit two's complement integers: a sum or a
  difference wraps around, \<^verbatim>\<open>/\<close> truncates towards zero and panics on a zero divisor,
  and \<^verbatim>\<open>Time.Sub\<close> saturates at the least and the greatest \<^verbatim>\<open>Duration\<close>.
\<close>

definition wrap64 :: "int \<Rightarrow> int" where
  "wrap64 x = (x + 2 ^ 63) mod 2 ^ 64 - 2 ^ 63"

definition quo :: "int \<Rightarrow> int \<Rightarrow> int" where
  "quo a b = wrap64 (sgn a * sgn b * (\<bar>a\<bar> div \<bar>b\<bar>))"

definition maxDuration :: Duration where
  "maxDuration = 2 ^ 63 - 1"

definition minDuration :: Duration where
  "minDuration = - (2 ^ 63)"

definition timeSub :: "Time \<Rightarrow> Time \<Rightarrow> Duration" where
  "timeSub t u = (if t - u < minDuration then minDuration
                  else if maxDuration < t - u then maxDuration
                  else t - u)"

definition min_go :: "int \<Rightarrow> int \<Rightarrow> int" where
  "min_go a b = (if a < b then a else b)"

record bucket =
  tokens :: int
  lastRefill :: Time

record RateLimiter =
  buckets :: "string \<rightharpoonup> bucket"
  maxTokens :: int
  refillRate :: Duration
  tokensPerReq :: int

record ratelimit_Config =
  MaxRequestsPerMinute :: int
  WindowDuration :: Duration

definition New :: "ratelimit_Config \<Rightarrow> RateLimiter" where
  "New cfg =
     (let m = (if MaxRequestsPerMinute cfg = 0 then 60 else MaxRequestsPerMinute cfg);
          d = (if WindowDuration cfg = 0 then Minute else WindowDuration cfg)
      in \<lparr>buckets = Map.empty, maxTokens = m, refillRate = quo d m, tokensPerReq = 1\<rparr>)"

datatype panic = DivideByZero

text \<open>
  The first half of \<^verbatim>\<open>allow\<close>: the bucket of the key, created full when there is none
  (\<open>t0\<close> is the clock read at creation), and the limiter with the bucket in its map.
\<close>

definition getBucket :: "RateLimiter \<Rightarrow> string \<Rightarrow> Time \<Rightarrow> bucket \<times> RateLimiter" where
  "getBucket rl key t0 =
     (case buckets rl key of
        Some b \<Rightarrow> (b, rl)
      | None \<Rightarrow> (let b = \<lparr>tokens = maxTokens rl, lastRefill = t0\<rparr>
                 in (b, rl\<lparr>buckets := (buckets rl)(key \<mapsto> b)\<rparr>)))"

text \<open>
  The second half, on the bucket under its lock (\<open>now\<close> is the second clock read):
  \<open>Inl\<close> is the panic of the division, \<open>Inr\<close> the answer and the bucket afterwards.
\<close>

definition tokensToAdd :: "RateLimiter \<Rightarrow> bucket \<Rightarrow> Time \<Rightarrow> int" where
  "tokensToAdd rl b now = quo (timeSub now (lastRefill b)) (refillRate rl)"

definition refillAndTake :: "RateLimiter \<Rightarrow> bucket \<Rightarrow> Time \<Rightarrow> panic + bool \<times> bucket" where
  "refillAndTake rl b now =
     (if refillRate rl = 0 then Inl DivideByZero
      else let n = tokensToAdd rl b now;
               b1 = (if 0 < n
                     then b\<lparr>tokens := min_go (maxTokens rl) (wrap64 (tokens b + n)),
                            lastRefill := now\<rparr>
                     else b)
           in if tokensPerReq rl \<le> tokens b1
              then Inr (True, b1\<lparr>tokens := wrap64 (tokens b1 - tokensPerReq rl)\<rparr>)
              else Inr (False, b1))"

text \<open>
  \<^verbatim>\<open>allow\<close>: the bucket is a pointer in the source, so what the second half does to
  it is seen through the map; a panic leaves the map as the first half made it.
\<close>

definition allow ::
  "RateLimiter \<Rightarrow> string \<Rightarrow> Time \<Rightarrow> Time \<Rightarrow> panic \<times> RateLimiter + bool \<times> RateLimiter" where
  "allow rl key t0 now =
     (case getBucket rl key t0 of (b, rl1) \<Rightarrow>
        (case refillAndTake rl1 b now of
           Inl p \<Rightarrow> Inl (p, rl1)
         | Inr (ok, b') \<Rightarrow> Inr (ok, rl1\<lparr>buckets := (buckets rl1)(key \<mapsto> b')\<rparr>)))"

text \<open>
  A run of calls of \<^verbatim>\<open>allow\<close>, each with its key and its two clock reads; the run
  stops at a panic. The answers come back in the order of the calls.
\<close>

fun allowSeq ::
  "RateLimiter \<Rightarrow> (string \<times> Time \<times> Time) list \<Rightarrow> panic \<times> RateLimiter + bool list \<times> RateLimiter" where
  "allowSeq rl [] = Inr ([], rl)"
| "allowSeq rl ((key, t0, now) # cs) =
     (case allow rl key t0 now of
        Inl p \<Rightarrow> Inl p
      | Inr (ok, rl1) \<Rightarrow>
          (case allowSeq rl1 cs of
             Inl p \<Rightarrow> Inl p
           | Inr (oks, rl2) \<Rightarrow> Inr (ok # oks, rl2)))"

text \<open>The invariant of the data model, for every bucket of the limiter.\<close>

definition bucketsInRange :: "RateLimiter \<Rightarrow> bool" where
  "bucketsInRange rl =
     (\<forall>key b. buckets rl key = Some b \<longrightarrow> 0 \<le> tokens b \<and> tokens b \<le> maxTokens rl)"

text \<open>
  The limiters the invariant is proved for: the capacity is not negative, a request
  costs one token (the only value \<^verbatim>\<open>New\<close> gives the field), the refill interval is
  not zero (the division does not panic), and the capacity with the most tokens one
  refill can add, \<open>2 ^ 63\<close> nanoseconds' worth, stays below \<open>2 ^ 63\<close> (the sum in the
  refill does not wrap around).
\<close>

definition limiterOK :: "RateLimiter \<Rightarrow> bool" where
  "limiterOK rl =
     (0 \<le> maxTokens rl \<and> tokensPerReq rl = 1 \<and> refillRate rl \<noteq> 0 \<and>
      maxTokens rl + 2 ^ 63 div \<bar>refillRate rl\<bar> < 2 ^ 63)"

subsection \<open>Limiters used as concrete inputs\<close>

text \<open>Five requests in five seconds: one token a second.\<close>

definition fivePerFiveSeconds :: RateLimiter where
  "fivePerFiveSeconds = New \<lparr>MaxRequestsPerMinute = 5, WindowDuration = 5 * Second\<rparr>"

text \<open>That limiter once the key \<open>''k''\<close> has been admitted at the instant 1000.\<close>

definition afterFirstCall :: RateLimiter where
  "afterFirstCall =
     \<lparr>buckets = [''k'' \<mapsto> \<lparr>tokens = 4, lastRefill = 1000\<rparr>], maxTokens = 5,
      refillRate = Second, tokensPerReq = 1\<rparr>"

text \<open>
  Eight calls for one key: six within a few nanoseconds, then one a second after the
  first, then one a nanosecond later.
\<close>

definition burst :: "(string \<times> Time \<times> Time) list" where
  "burst = [(''k'', 1000, 1000), (''k'', 1001, 1001), (''k'', 1002, 1002), (''k'', 1003, 1003),
            (''k'', 1004, 1004), (''k'', 1005, 1005), (''k'', 1006, 1000 + Second),
            (''k'', 1007, 1001 + Second)]"

section \<open>The circuit breaker: proofs\<close>

lemmas breaker_defs = currentState_def toNewGeneration_def setState_def counts_zero_def
  beforeRequest_def afterRequest_def onFailure_def onSuccess_def NewCircuitBreaker_def

subsection \<open>The concrete breakers are states the code reaches\<close>

lemma staleScenario_reached:
  "afterRequest
     (fst (beforeRequest (fst (beforeRequest (NewCircuitBreaker exampleConfig 0) 10)) 60))
     2 False 70 = staleScenario"
  by (simp add: breaker_defs exampleConfig_def staleScenario_def Let_def word_le_nat_alt)

lemma closedScenario_reached:
  "fst (beforeRequest
          (NewCircuitBreaker (exampleConfig\<lparr>Interval := 0, FailureThreshold := 1\<rparr>) 0) 10)
   = closedScenario"
  by (simp add: breaker_defs exampleConfig_def closedScenario_def Let_def)

lemma openScenario_reached:
  "afterRequest closedScenario 1 False 40 = openScenario"
  by (simp add: breaker_defs closedScenario_def openScenario_def Let_def)

lemma halfOpenScenario_reached:
  "fst (beforeRequest openScenario 101) = halfOpenScenario"
  by (simp add: breaker_defs openScenario_def halfOpenScenario_def Let_def word_le_nat_alt)

lemma closedTwoAdmitted_reached:
  "fst (beforeRequest (fst (beforeRequest (NewCircuitBreaker twoFailuresConfig 0) 10)) 11)
   = closedTwoAdmitted"
  by (simp add: breaker_defs twoFailuresConfig_def closedTwoAdmitted_def Let_def)

lemma probing_reached:
  "fst (beforeRequest (fst (beforeRequest openedAtFifty 111)) 112) = probing"
  by (simp add: breaker_defs openedAtFifty_def probing_def closedTwoAdmitted_def Let_def
      word_le_nat_alt)

subsection \<open>Lazy resolution of the state\<close>

lemma currentState_idle:
  "\<not> lazyTransitionDue cb now \<Longrightarrow> currentState cb now = (cb, state cb, generation cb)"
  by (auto simp add: currentState_def lazyTransitionDue_def split: State.splits)


lemma currentState_open_expired:
  assumes "state cb = StateOpen" "expiry cb < now"
  shows "currentState cb now =
           (cb\<lparr>state := StateHalfOpen, generation := generation cb + 1, counts := counts_zero,
               expiry := 0, notified := notified cb @ [(StateOpen, StateHalfOpen)]\<rparr>,
            StateHalfOpen, generation cb + 1)"
  using assms by (simp add: currentState_def setState_def toNewGeneration_def Let_def)

subsection \<open>Completions of a stale generation\<close>

text \<open>
  C2, as stated, fails: a completion of a call admitted in generation 1 reaches
  \<open>staleScenario\<close> (generation 2, one failure counted) at 200, after the closed
  interval has ended at 110. The generation differs from the one of the admission, before
  and after \<^verbatim>\<open>currentState\<close>, and yet the completion leaves the breaker changed: the
  re-resolution inside \<^verbatim>\<open>afterRequest\<close> starts generation 3, zeroes the counters and
  moves the expiry to 250.
\<close>

theorem afterRequest_stale_changes_state:
  "generation staleScenario \<noteq> 1 \<and>
   snd (snd (currentState staleScenario 200)) \<noteq> 1 \<and>
   afterRequest staleScenario 1 True 200 =
     staleScenario\<lparr>generation := 3, counts := counts_zero, expiry := 250\<rparr> \<and>
   afterRequest staleScenario 1 True 200 \<noteq> staleScenario"
  by (simp add: breaker_defs staleScenario_def Let_def)

text \<open>
  C2, amended: when the generation that \<^verbatim>\<open>afterRequest\<close> re-resolves differs from the
  generation of the admission, the outcome is discarded: the breaker is left exactly as
  \<^verbatim>\<open>currentState\<close> leaves it at that instant, whatever the outcome, and when no lazy
  transition is due at that instant the whole breaker (state, generation, the five
  counters, expiry) is unchanged.
\<close>

theorem afterRequest_stale_discarded:
  assumes "snd (snd (currentState cb now)) \<noteq> beforeGen"
  shows "afterRequest cb beforeGen success now = fst (currentState cb now) \<and>
         (\<not> lazyTransitionDue cb now \<longrightarrow> afterRequest cb beforeGen success now = cb)"
proof -
  obtain cb1 st gen where cs: "currentState cb now = (cb1, st, gen)"
    by (cases "currentState cb now") auto
  with assms have "gen \<noteq> beforeGen" by simp
  with cs have stale: "afterRequest cb beforeGen success now = cb1"
    by (simp add: afterRequest_def)
  moreover have "\<not> lazyTransitionDue cb now \<Longrightarrow> cb1 = cb"
    using cs by (simp add: currentState_idle)
  ultimately show ?thesis using cs by simp
qed

theorem afterRequest_stale_discarded_witness:
  "snd (snd (currentState staleScenario 80)) \<noteq> 1 \<and>
   \<not> lazyTransitionDue staleScenario 80 \<and>
   afterRequest staleScenario 1 True 80 = staleScenario"
proof -
  have h: "snd (snd (currentState staleScenario 80)) \<noteq> 1"
    by (simp add: breaker_defs staleScenario_def Let_def)
  have d: "\<not> lazyTransitionDue staleScenario 80"
    by (simp add: lazyTransitionDue_def staleScenario_def)
  from afterRequest_stale_discarded [OF h, of True]
  have "\<not> lazyTransitionDue staleScenario 80 \<longrightarrow>
        afterRequest staleScenario 1 True 80 = staleScenario"
    by (rule conjunct2)
  with d h show ?thesis by blast
qed

subsection \<open>From open to half-open\<close>

text \<open>
  C3, as stated, fails at \<open>now = expiry\<close>: \<^verbatim>\<open>cb.expiry.Before(now)\<close> is strict, so
  a call that arrives at 100 at a breaker open until 100 finds it open, and is rejected.
\<close>

theorem open_at_expiry_stays_open:
  "state openScenario = StateOpen \<and> expiry openScenario = 100 \<and>
   currentState openScenario 100 = (openScenario, StateOpen, 2) \<and>
   beforeRequest openScenario 100 = (openScenario, 2, Some ErrCircuitOpen)"
  by (simp add: breaker_defs openScenario_def)

text \<open>
  C3, amended: for a breaker in state Open, a call that arrives strictly after the expiry
  (\<open>expiry < now\<close>) moves it to HalfOpen, in a new generation with the counters at zero,
  and is admitted as the first probe when \<open>maxRequests\<close> is not zero (what
  \<^verbatim>\<open>NewCircuitBreaker\<close> ensures); a call that arrives at \<open>now \<le> expiry\<close>, the instant
  \<open>now = expiry\<close> included, leaves the breaker as it is and is rejected with the
  circuit-open error.
\<close>

theorem open_to_halfopen_after_expiry:
  assumes "state cb = StateOpen"
  shows "(expiry cb < now \<longrightarrow>
            fst (snd (currentState cb now)) = StateHalfOpen \<and>
            snd (snd (currentState cb now)) = generation cb + 1 \<and>
            counts (fst (currentState cb now)) = counts_zero \<and>
            (maxRequests cb \<noteq> 0 \<longrightarrow>
               snd (snd (beforeRequest cb now)) = None \<and>
               state (fst (beforeRequest cb now)) = StateHalfOpen \<and>
               Requests (counts (fst (beforeRequest cb now))) = 1)) \<and>
         (now \<le> expiry cb \<longrightarrow>
            currentState cb now = (cb, StateOpen, generation cb) \<and>
            beforeRequest cb now = (cb, generation cb, Some ErrCircuitOpen))"
proof (intro conjI impI)
  assume e: "expiry cb < now"
  note cs = currentState_open_expired [OF assms e]
  show "fst (snd (currentState cb now)) = StateHalfOpen" by (simp add: cs)
  show "snd (snd (currentState cb now)) = generation cb + 1" by (simp add: cs)
  show "counts (fst (currentState cb now)) = counts_zero" by (simp add: cs)
  assume m: "maxRequests cb \<noteq> 0"
  then have "\<not> maxRequests cb \<le> 0" by simp
  then have br: "beforeRequest cb now =
      (fst (currentState cb now)\<lparr>counts := counts_zero\<lparr>Requests := 1\<rparr>\<rparr>,
       generation cb + 1, None)"
    by (simp add: beforeRequest_def cs counts_zero_def)
  show "snd (snd (beforeRequest cb now)) = None" by (simp add: br)
  show "state (fst (beforeRequest cb now)) = StateHalfOpen" by (simp add: br cs)
  show "Requests (counts (fst (beforeRequest cb now))) = 1" by (simp add: br)
next
  assume l: "now \<le> expiry cb"
  with assms show cs: "currentState cb now = (cb, StateOpen, generation cb)"
    by (simp add: currentState_def)
  then show "beforeRequest cb now = (cb, generation cb, Some ErrCircuitOpen)"
    by (simp add: beforeRequest_def)
qed

theorem open_to_halfopen_after_expiry_witness:
  "state openScenario = StateOpen \<and> expiry openScenario < 101 \<and>
   maxRequests openScenario \<noteq> 0 \<and>
   fst (snd (currentState openScenario 101)) = StateHalfOpen \<and>
   snd (snd (beforeRequest openScenario 101)) = None \<and>
   (100::int) \<le> expiry openScenario \<and>
   beforeRequest openScenario 100 = (openScenario, generation openScenario, Some ErrCircuitOpen)"
proof -
  have s: "state openScenario = StateOpen" by (simp add: openScenario_def)
  have e: "expiry openScenario < 101" "(100::int) \<le> expiry openScenario"
    by (simp_all add: openScenario_def)
  have m: "maxRequests openScenario \<noteq> 0" by (simp add: openScenario_def)
  from open_to_halfopen_after_expiry [OF s, of 101]
       open_to_halfopen_after_expiry [OF s, of 100] s e m
  show ?thesis by blast
qed

subsection \<open>Admission\<close>




lemma counted_apply: "counted f (w, n) = (fst (f w), (snd (f w), Suc n))"
  by (simp add: counted_def split: prod.splits)



subsection \<open>Transitions on completions\<close>

lemma afterRequest_recorded:
  assumes "\<not> lazyTransitionDue cb now"
  shows "afterRequest cb (generation cb) success now =
           (if success then onSuccess cb (state cb) now else onFailure cb (state cb) now)"
  using assms by (simp add: afterRequest_def currentState_idle)

lemma onFailure_closed:
  assumes "state cb = StateClosed"
  shows "onFailure cb StateClosed now =
     (if failureThreshold cb \<le> ConsecutiveFailures (counts cb) + 1
      then cb\<lparr>state := StateOpen, generation := generation cb + 1, counts := counts_zero,
              expiry := now + timeout cb, notified := notified cb @ [(StateClosed, StateOpen)]\<rparr>
      else cb\<lparr>counts := (counts cb)\<lparr>TotalFailures := TotalFailures (counts cb) + 1,
                ConsecutiveFailures := ConsecutiveFailures (counts cb) + 1,
                ConsecutiveSuccesses := 0\<rparr>\<rparr>)"
  using assms by (simp add: onFailure_def setState_def toNewGeneration_def Let_def)

lemma onFailure_halfOpen:
  assumes "state cb = StateHalfOpen"
  shows "onFailure cb StateHalfOpen now =
     cb\<lparr>state := StateOpen, generation := generation cb + 1, counts := counts_zero,
        expiry := now + timeout cb, notified := notified cb @ [(StateHalfOpen, StateOpen)]\<rparr>"
  using assms by (simp add: onFailure_def setState_def toNewGeneration_def Let_def)

lemma onFailure_open:
  assumes "state cb = StateOpen"
  shows "state (onFailure cb StateOpen now) = StateOpen"
  using assms by (simp add: onFailure_def setState_def toNewGeneration_def Let_def)

lemma onSuccess_halfOpen:
  assumes "state cb = StateHalfOpen"
  shows "onSuccess cb StateHalfOpen now =
     (if successThreshold cb \<le> ConsecutiveSuccesses (counts cb) + 1
      then cb\<lparr>state := StateClosed, generation := generation cb + 1, counts := counts_zero,
              expiry := (if interval cb = 0 then 0 else now + interval cb),
              notified := notified cb @ [(StateHalfOpen, StateClosed)]\<rparr>
      else cb\<lparr>counts := (counts cb)\<lparr>TotalSuccesses := TotalSuccesses (counts cb) + 1,
                ConsecutiveSuccesses := ConsecutiveSuccesses (counts cb) + 1,
                ConsecutiveFailures := 0\<rparr>\<rparr>)"
  using assms by (simp add: onSuccess_def setState_def toNewGeneration_def Let_def)

lemma onSuccess_other:
  assumes "st \<noteq> StateHalfOpen"
  shows "state (onSuccess cb st now) = state cb"
  using assms by (simp add: onSuccess_def Let_def)

lemma onSuccess_closed:
  assumes "st \<noteq> StateHalfOpen"
  shows "onSuccess cb st now =
     cb\<lparr>counts := (counts cb)\<lparr>TotalSuccesses := TotalSuccesses (counts cb) + 1,
               ConsecutiveSuccesses := ConsecutiveSuccesses (counts cb) + 1,
               ConsecutiveFailures := 0\<rparr>\<rparr>"
  using assms by (simp add: onSuccess_def Let_def)

text \<open>
  C5: a completion that is recorded, that is, one that reaches the breaker in the
  generation of its admission with no lazy transition due. A failure in Closed opens the
  breaker exactly when the consecutive failures, this one counted, reach
  \<open>failureThreshold\<close>; a failure in HalfOpen opens it at once; a success in HalfOpen
  closes it exactly when the consecutive successes, this one counted, reach
  \<open>successThreshold\<close>; and every completion that changes the state leaves all five
  counters at zero and the generation one higher. The counters the thresholds are tested
  against are the ones the completions store: a failure in Closed below the threshold
  leaves the breaker as it was but for \<open>TotalFailures\<close> and \<open>ConsecutiveFailures\<close>
  one higher and \<open>ConsecutiveSuccesses\<close> at zero, a success in HalfOpen below the
  threshold, and any success in Closed, leaves it as it was but for \<open>TotalSuccesses\<close>
  and \<open>ConsecutiveSuccesses\<close> one higher and \<open>ConsecutiveFailures\<close> at zero; and a
  transition leaves exactly the new state, the next generation, zero counters, the expiry
  of the new state and one more notification.
\<close>

theorem completion_transitions:
  assumes "\<not> lazyTransitionDue cb now"
  shows
    "(state cb = StateClosed \<longrightarrow>
        (state (afterRequest cb (generation cb) False now) = StateOpen) =
        (failureThreshold cb \<le> ConsecutiveFailures (counts cb) + 1)) \<and>
     (state cb = StateHalfOpen \<longrightarrow>
        state (afterRequest cb (generation cb) False now) = StateOpen) \<and>
     (state cb = StateHalfOpen \<longrightarrow>
        (state (afterRequest cb (generation cb) True now) = StateClosed) =
        (successThreshold cb \<le> ConsecutiveSuccesses (counts cb) + 1)) \<and>
     (\<forall>success. state (afterRequest cb (generation cb) success now) \<noteq> state cb \<longrightarrow>
        counts (afterRequest cb (generation cb) success now) = counts_zero \<and>
        generation (afterRequest cb (generation cb) success now) = generation cb + 1) \<and>
     (state cb = StateClosed \<and> \<not> failureThreshold cb \<le> ConsecutiveFailures (counts cb) + 1 \<longrightarrow>
        afterRequest cb (generation cb) False now =
          cb\<lparr>counts := (counts cb)\<lparr>TotalFailures := TotalFailures (counts cb) + 1,
                    ConsecutiveFailures := ConsecutiveFailures (counts cb) + 1,
                    ConsecutiveSuccesses := 0\<rparr>\<rparr>) \<and>
     (state cb = StateClosed \<and> failureThreshold cb \<le> ConsecutiveFailures (counts cb) + 1 \<longrightarrow>
        afterRequest cb (generation cb) False now =
          cb\<lparr>state := StateOpen, generation := generation cb + 1, counts := counts_zero,
             expiry := now + timeout cb,
             notified := notified cb @ [(StateClosed, StateOpen)]\<rparr>) \<and>
     (state cb = StateHalfOpen \<longrightarrow>
        afterRequest cb (generation cb) False now =
          cb\<lparr>state := StateOpen, generation := generation cb + 1, counts := counts_zero,
             expiry := now + timeout cb,
             notified := notified cb @ [(StateHalfOpen, StateOpen)]\<rparr>) \<and>
     (state cb = StateHalfOpen \<and>
      \<not> successThreshold cb \<le> ConsecutiveSuccesses (counts cb) + 1 \<longrightarrow>
        afterRequest cb (generation cb) True now =
          cb\<lparr>counts := (counts cb)\<lparr>TotalSuccesses := TotalSuccesses (counts cb) + 1,
                    ConsecutiveSuccesses := ConsecutiveSuccesses (counts cb) + 1,
                    ConsecutiveFailures := 0\<rparr>\<rparr>) \<and>
     (state cb = StateHalfOpen \<and> successThreshold cb \<le> ConsecutiveSuccesses (counts cb) + 1 \<longrightarrow>
        afterRequest cb (generation cb) True now =
          cb\<lparr>state := StateClosed, generation := generation cb + 1, counts := counts_zero,
             expiry := (if interval cb = 0 then 0 else now + interval cb),
             notified := notified cb @ [(StateHalfOpen, StateClosed)]\<rparr>) \<and>
     (state cb = StateClosed \<longrightarrow>
        afterRequest cb (generation cb) True now =
          cb\<lparr>counts := (counts cb)\<lparr>TotalSuccesses := TotalSuccesses (counts cb) + 1,
                    ConsecutiveSuccesses := ConsecutiveSuccesses (counts cb) + 1,
                    ConsecutiveFailures := 0\<rparr>\<rparr>)"
proof -
  note ar = afterRequest_recorded [OF assms]
  have t1: "(state (afterRequest cb (generation cb) False now) = StateOpen) =
        (failureThreshold cb \<le> ConsecutiveFailures (counts cb) + 1)"
    if "state cb = StateClosed"
    using that by (simp add: ar onFailure_closed)
  have t2: "state (afterRequest cb (generation cb) False now) = StateOpen"
    if "state cb = StateHalfOpen"
    using that by (simp add: ar onFailure_halfOpen)
  have t3: "(state (afterRequest cb (generation cb) True now) = StateClosed) =
        (successThreshold cb \<le> ConsecutiveSuccesses (counts cb) + 1)"
    if "state cb = StateHalfOpen"
    using that by (simp add: ar onSuccess_halfOpen)
  have t4: "counts (afterRequest cb (generation cb) success now) = counts_zero \<and>
        generation (afterRequest cb (generation cb) success now) = generation cb + 1"
    if ch: "state (afterRequest cb (generation cb) success now) \<noteq> state cb" for success
  proof (cases "state cb")
    case StateClosed
    with ch show ?thesis
      by (cases success) (simp_all add: ar onFailure_closed onSuccess_other split: if_splits)
  next
    case StateHalfOpen
    with ch show ?thesis
      by (cases success) (simp_all add: ar onFailure_halfOpen onSuccess_halfOpen split: if_splits)
  next
    case StateOpen
    with ch show ?thesis
      by (cases success) (simp_all add: ar onFailure_open onSuccess_other)
  qed
  have r1: "afterRequest cb (generation cb) False now =
          cb\<lparr>counts := (counts cb)\<lparr>TotalFailures := TotalFailures (counts cb) + 1,
                    ConsecutiveFailures := ConsecutiveFailures (counts cb) + 1,
                    ConsecutiveSuccesses := 0\<rparr>\<rparr>"
    if "state cb = StateClosed" "\<not> failureThreshold cb \<le> ConsecutiveFailures (counts cb) + 1"
    using that by (simp add: ar onFailure_closed)
  have r2: "afterRequest cb (generation cb) False now =
          cb\<lparr>state := StateOpen, generation := generation cb + 1, counts := counts_zero,
             expiry := now + timeout cb,
             notified := notified cb @ [(StateClosed, StateOpen)]\<rparr>"
    if "state cb = StateClosed" "failureThreshold cb \<le> ConsecutiveFailures (counts cb) + 1"
    using that by (simp add: ar onFailure_closed)
  have r3: "afterRequest cb (generation cb) False now =
          cb\<lparr>state := StateOpen, generation := generation cb + 1, counts := counts_zero,
             expiry := now + timeout cb,
             notified := notified cb @ [(StateHalfOpen, StateOpen)]\<rparr>"
    if "state cb = StateHalfOpen"
    using that by (simp add: ar onFailure_halfOpen)
  have r4: "afterRequest cb (generation cb) True now =
          cb\<lparr>counts := (counts cb)\<lparr>TotalSuccesses := TotalSuccesses (counts cb) + 1,
                    ConsecutiveSuccesses := ConsecutiveSuccesses (counts cb) + 1,
                    ConsecutiveFailures := 0\<rparr>\<rparr>"
    if "state cb = StateHalfOpen" "\<not> successThreshold cb \<le> ConsecutiveSuccesses (counts cb) + 1"
    using that by (simp add: ar onSuccess_halfOpen)
  have r5: "afterRequest cb (generation cb) True now =
          cb\<lparr>state := StateClosed, generation := generation cb + 1, counts := counts_zero,
             expiry := (if interval cb = 0 then 0 else now + interval cb),
             notified := notified cb @ [(StateHalfOpen, StateClosed)]\<rparr>"
    if "state cb = StateHalfOpen" "successThreshold cb \<le> ConsecutiveSuccesses (counts cb) + 1"
    using that by (simp add: ar onSuccess_halfOpen)
  have r6: "afterRequest cb (generation cb) True now =
          cb\<lparr>counts := (counts cb)\<lparr>TotalSuccesses := TotalSuccesses (counts cb) + 1,
                    ConsecutiveSuccesses := ConsecutiveSuccesses (counts cb) + 1,
                    ConsecutiveFailures := 0\<rparr>\<rparr>"
    if "state cb = StateClosed"
    using that by (simp add: ar onSuccess_closed)
  from t1 t2 t3 t4 r1 r2 r3 r4 r5 r6 show ?thesis by blast
qed


theorem completion_transitions_witness:
  "\<not> lazyTransitionDue closedTwoAdmitted 40 \<and> state closedTwoAdmitted = StateClosed \<and>
   \<not> failureThreshold closedTwoAdmitted \<le> ConsecutiveFailures (counts closedTwoAdmitted) + 1 \<and>
   afterRequest closedTwoAdmitted (generation closedTwoAdmitted) False 40 = closedOneFailure \<and>
   \<not> lazyTransitionDue closedOneFailure 50 \<and> state closedOneFailure = StateClosed \<and>
   failureThreshold closedOneFailure \<le> ConsecutiveFailures (counts closedOneFailure) + 1 \<and>
   afterRequest closedOneFailure (generation closedOneFailure) False 50 = openedAtFifty \<and>
   state openedAtFifty = StateOpen \<and> counts openedAtFifty = counts_zero \<and>
   generation openedAtFifty = generation closedOneFailure + 1 \<and>
   \<not> lazyTransitionDue probing 120 \<and> state probing = StateHalfOpen \<and>
   \<not> successThreshold probing \<le> ConsecutiveSuccesses (counts probing) + 1 \<and>
   afterRequest probing (generation probing) True 120 = probingOneSuccess \<and>
   state (afterRequest probing (generation probing) False 120) = StateOpen \<and>
   \<not> lazyTransitionDue probingOneSuccess 130 \<and> state probingOneSuccess = StateHalfOpen \<and>
   successThreshold probingOneSuccess \<le> ConsecutiveSuccesses (counts probingOneSuccess) + 1 \<and>
   afterRequest probingOneSuccess (generation probingOneSuccess) True 130 = closedAgain \<and>
   state closedAgain = StateClosed \<and> counts closedAgain = counts_zero \<and>
   generation closedAgain = generation probingOneSuccess + 1"
proof -
  note defs = closedTwoAdmitted_def closedOneFailure_def openedAtFifty_def probing_def
    probingOneSuccess_def closedAgain_def
  have a: "\<not> lazyTransitionDue closedTwoAdmitted 40" "state closedTwoAdmitted = StateClosed"
    "\<not> failureThreshold closedTwoAdmitted \<le> ConsecutiveFailures (counts closedTwoAdmitted) + 1"
    by (simp_all add: lazyTransitionDue_def defs word_le_nat_alt)
  have b: "\<not> lazyTransitionDue closedOneFailure 50" "state closedOneFailure = StateClosed"
    "failureThreshold closedOneFailure \<le> ConsecutiveFailures (counts closedOneFailure) + 1"
    by (simp_all add: lazyTransitionDue_def defs)
  have c: "\<not> lazyTransitionDue probing 120" "state probing = StateHalfOpen"
    "\<not> successThreshold probing \<le> ConsecutiveSuccesses (counts probing) + 1"
    by (simp_all add: lazyTransitionDue_def defs word_le_nat_alt)
  have d: "\<not> lazyTransitionDue probingOneSuccess 130" "state probingOneSuccess = StateHalfOpen"
    "successThreshold probingOneSuccess \<le> ConsecutiveSuccesses (counts probingOneSuccess) + 1"
    by (simp_all add: lazyTransitionDue_def defs)
  have e: "state openedAtFifty = StateOpen" "counts openedAtFifty = counts_zero"
    "generation openedAtFifty = generation closedOneFailure + 1"
    "state closedAgain = StateClosed" "counts closedAgain = counts_zero"
    "generation closedAgain = generation probingOneSuccess + 1"
    by (simp_all add: defs)
  from completion_transitions [OF a(1)] a(2,3)
  have "afterRequest closedTwoAdmitted (generation closedTwoAdmitted) False 40 =
      closedTwoAdmitted\<lparr>counts := (counts closedTwoAdmitted)
        \<lparr>TotalFailures := TotalFailures (counts closedTwoAdmitted) + 1,
         ConsecutiveFailures := ConsecutiveFailures (counts closedTwoAdmitted) + 1,
         ConsecutiveSuccesses := 0\<rparr>\<rparr>"
    by blast
  then have f1: "afterRequest closedTwoAdmitted (generation closedTwoAdmitted) False 40 =
      closedOneFailure"
    by (simp add: defs)
  from completion_transitions [OF b(1)] b(2,3)
  have "afterRequest closedOneFailure (generation closedOneFailure) False 50 =
      closedOneFailure\<lparr>state := StateOpen, generation := generation closedOneFailure + 1,
        counts := counts_zero, expiry := 50 + timeout closedOneFailure,
        notified := notified closedOneFailure @ [(StateClosed, StateOpen)]\<rparr>"
    by blast
  then have f2: "afterRequest closedOneFailure (generation closedOneFailure) False 50 =
      openedAtFifty"
    by (simp add: defs)
  from completion_transitions [OF c(1)] c(2,3)
  have "afterRequest probing (generation probing) True 120 =
      probing\<lparr>counts := (counts probing)
        \<lparr>TotalSuccesses := TotalSuccesses (counts probing) + 1,
         ConsecutiveSuccesses := ConsecutiveSuccesses (counts probing) + 1,
         ConsecutiveFailures := 0\<rparr>\<rparr>"
    by blast
  then have s1: "afterRequest probing (generation probing) True 120 = probingOneSuccess"
    by (simp add: defs)
  from completion_transitions [OF c(1)] c(2)
  have s2: "state (afterRequest probing (generation probing) False 120) = StateOpen"
    by blast
  from completion_transitions [OF d(1)] d(2,3)
  have "afterRequest probingOneSuccess (generation probingOneSuccess) True 130 =
      probingOneSuccess\<lparr>state := StateClosed, generation := generation probingOneSuccess + 1,
        counts := counts_zero,
        expiry := (if interval probingOneSuccess = 0 then 0 else 130 + interval probingOneSuccess),
        notified := notified probingOneSuccess @ [(StateHalfOpen, StateClosed)]\<rparr>"
    by blast
  then have s3: "afterRequest probingOneSuccess (generation probingOneSuccess) True 130 =
      closedAgain"
    by (simp add: defs)
  from a b c d e f1 f2 s1 s2 s3 show ?thesis by blast
qed

section \<open>The retry executor: proofs\<close>

subsection \<open>The jittered delay\<close>

lemma truncToInt_le: "0 \<le> x \<Longrightarrow> x \<le> real_of_int d \<Longrightarrow> truncToInt x \<le> d"
  by (simp add: truncToInt_def floor_le_iff)

text \<open>
  With a fraction of at most one and a draw \<open>u\<close> in \<open>[0, 1)\<close> the jitter is at most
  the delay, so neither branch is negative (in exact arithmetic, and with no overflow of
  the sum).
\<close>

lemma addJitter_fraction_nonneg:
  assumes "0 \<le> d" "jf \<le> 1" "0 \<le> u" "u < 1"
  shows "0 \<le> addJitter d jf (u, coin)"
proof (cases "jf \<le> 0")
  case True with assms show ?thesis by (simp add: addJitter_def)
next
  case False
  then have jf: "0 < jf" by simp
  let ?x = "u * real_of_int d * jf"
  have x0: "0 \<le> ?x" using assms jf by simp
  have "u * jf \<le> 1" using assms jf by (simp add: mult_le_one)
  then have "u * jf * real_of_int d \<le> 1 * real_of_int d"
    using assms by (intro mult_right_mono) simp_all
  then have x1: "?x \<le> real_of_int d" by (simp add: ac_simps)
  have "truncToInt ?x \<le> d" using x0 x1 by (rule truncToInt_le)
  moreover have "0 \<le> truncToInt ?x" using x0 by (simp add: truncToInt_def)
  ultimately show ?thesis using assms False by (simp add: addJitter_def Let_def)
qed

text \<open>
  C1: the code at a failing input. With a base delay of 100 ns, \<open>jitterFraction = 4\<close>,
  the draw \<open>rand.Float64() = 0.5\<close> and \<open>rand.Intn(2) = 0\<close>, the jitter is 200 ns and
  the subtractive branch returns \<open>100 - 200\<close>: \<^verbatim>\<open>addJitter\<close> has no clamp, and the
  delay it returns is negative. Every number here is exact in \<^verbatim>\<open>float64\<close>.
\<close>

theorem addJitter_negative_delay:
  "addJitter 100 4 (1 / 2, 0) = - 100"
  by (simp add: addJitter_def truncToInt_def)

subsection \<open>The loop\<close>

lemma withDefaults_fields:
  "MaxAttempts (withDefaults cfg) = (if MaxAttempts cfg = 0 then 3 else MaxAttempts cfg)"
  "RetryableErrors (withDefaults cfg) = RetryableErrors cfg"
  "JitterFraction (withDefaults cfg) = JitterFraction cfg"
  by (simp_all add: withDefaults_def Let_def)

lemma invoked_Suc: "invoked operation (Suc k) w = snd (operation (invoked operation k w))"
  by (induction k arbitrary: w) simp_all

lemma invoked_counted:
  "invoked (counted operation) k (w, n) = (invoked operation k w, n + k)"
  by (induction k arbitrary: w n) (simp_all add: counted_def split: prod.splits)

lemma DoLoop_exhausts:
  assumes nc: "\<forall>k. \<not> doneAtPoll ctx k \<and> \<not> doneInWait ctx k"
    and fails: "\<forall>w. \<exists>e. fst (operation w) = Some e \<and> isRetryable e (RetryableErrors cfg)"
    and le: "attempt \<le> MaxAttempts cfg"
  shows "err (DoLoop ctx cfg rnd operation attempt delay lastErr w zs) =
           fst (operation (invoked operation (nat (MaxAttempts cfg - attempt)) w)) \<and>
         world (DoLoop ctx cfg rnd operation attempt delay lastErr w zs) =
           invoked operation (Suc (nat (MaxAttempts cfg - attempt))) w"
  using le
proof (induction "nat (MaxAttempts cfg - attempt)" arbitrary: attempt delay lastErr w zs)
  case 0
  then have eq: "attempt = MaxAttempts cfg" by simp
  from fails obtain e where e: "fst (operation w) = Some e" "isRetryable e (RetryableErrors cfg)"
    by blast
  then obtain w' where ow: "operation w = (Some e, w')" by (cases "operation w") auto
  show ?case
    by (subst (1 2) DoLoop.simps) (simp add: eq nc ow e)
next
  case (Suc k)
  then have lt: "attempt < MaxAttempts cfg" and k: "k = nat (MaxAttempts cfg - (attempt + 1))"
    by linarith+
  from fails obtain e where e: "fst (operation w) = Some e" "isRetryable e (RetryableErrors cfg)"
    by blast
  then obtain w' where ow: "operation w = (Some e, w')" by (cases "operation w") auto
  have step: "DoLoop ctx cfg rnd operation attempt delay lastErr w zs =
      DoLoop ctx cfg rnd operation (attempt + 1)
        (truncToInt (min (real_of_int (MaxDelay cfg)) (real_of_int delay * Multiplier cfg)))
        (Some e) w' (zs @ [addJitter delay (JitterFraction cfg) (rnd attempt)])"
    using lt by (subst DoLoop.simps) (simp add: nc ow e)
  have n: "nat (MaxAttempts cfg - attempt) = Suc k" using Suc.hyps(2) by simp
  from Suc.hyps(1) [OF k] lt show ?case
    by (simp add: step n k [symmetric] ow)
qed

lemma DoLoop_empty_allow_list:
  assumes nc: "\<forall>k. \<not> doneAtPoll ctx k \<and> \<not> doneInWait ctx k"
    and empty: "RetryableErrors cfg = []"
    and le: "attempt \<le> MaxAttempts cfg"
  shows "err (DoLoop ctx cfg rnd (counted operation) attempt delay lastErr (w, n) zs) \<noteq> None \<longrightarrow>
         snd (world (DoLoop ctx cfg rnd (counted operation) attempt delay lastErr (w, n) zs)) =
           n + Suc (nat (MaxAttempts cfg - attempt))"
  using le
proof (induction "nat (MaxAttempts cfg - attempt)" arbitrary: attempt delay lastErr w n zs)
  case 0
  then have eq: "attempt = MaxAttempts cfg" by simp
  show ?case
    by (subst (1 2) DoLoop.simps)
       (simp add: eq nc empty isRetryable_def counted_apply split: option.splits)
next
  case (Suc k)
  then have lt: "attempt < MaxAttempts cfg" and k: "k = nat (MaxAttempts cfg - (attempt + 1))"
    by linarith+
  have n': "nat (MaxAttempts cfg - attempt) = Suc k" using Suc.hyps(2) by simp
  show ?case
  proof (cases "fst (operation w)")
    case None
    then show ?thesis
      using lt by (subst (1 2) DoLoop.simps) (simp add: nc counted_apply)
  next
    case (Some e)
    have step: "DoLoop ctx cfg rnd (counted operation) attempt delay lastErr (w, n) zs =
      DoLoop ctx cfg rnd (counted operation) (attempt + 1)
        (truncToInt (min (real_of_int (MaxDelay cfg)) (real_of_int delay * Multiplier cfg)))
        (Some e) (snd (operation w), Suc n)
        (zs @ [addJitter delay (JitterFraction cfg) (rnd attempt)])"
      using lt by (subst DoLoop.simps) (simp add: nc Some empty isRetryable_def counted_apply)
    from Suc.hyps(1) [OF k] lt show ?thesis
      by (simp add: step n' k [symmetric])
  qed
qed


lemma nonCancelled_Background: "nonCancelled Background"
  by (simp add: nonCancelled_def Background_def)

lemma alwaysFails_fails: "\<forall>w. \<exists>e. fst (alwaysFails w) = Some e \<and> isRetryable e []"
  by (simp add: alwaysFails_def isRetryable_def)

text \<open>
  C6: for a context that is never done, a configuration with \<open>MaxAttempts = n \<ge> 1\<close>
  and an operation that fails at every invocation with an error that \<^verbatim>\<open>isRetryable\<close>
  accepts, \<^verbatim>\<open>Do\<close> invokes the operation exactly \<open>n\<close> times (the counter ends at
  \<open>n\<close>, the world is the one after \<open>n\<close> invocations) and returns the very error of
  the \<open>n\<close>-th invocation, the one made in the world after \<open>n - 1\<close> invocations.
  (\<open>MaxAttempts = 0\<close> stands for the default of three attempts, and is not an \<open>n\<close>
  of the claim.)
\<close>

theorem Do_exhausts_attempts:
  assumes "nonCancelled ctx"
    and "1 \<le> MaxAttempts cfg"
    and "\<forall>w. \<exists>e. fst (operation w) = Some e \<and> isRetryable e (RetryableErrors cfg)"
  shows "snd (world (Do ctx cfg rnd (counted operation) (w, 0))) = nat (MaxAttempts cfg) \<and>
         fst (world (Do ctx cfg rnd (counted operation) (w, 0))) =
           invoked operation (nat (MaxAttempts cfg)) w \<and>
         err (Do ctx cfg rnd (counted operation) (w, 0)) =
           fst (operation (invoked operation (nat (MaxAttempts cfg) - 1) w))"
proof -
  let ?cfg = "withDefaults cfg"
  have m: "MaxAttempts ?cfg = MaxAttempts cfg" and r: "RetryableErrors ?cfg = RetryableErrors cfg"
    using assms(2) by (simp_all add: withDefaults_fields)
  have nc: "\<forall>k. \<not> doneAtPoll ctx k \<and> \<not> doneInWait ctx k"
    using assms(1) by (simp add: nonCancelled_def)
  have fails: "\<forall>s. \<exists>e. fst (counted operation s) = Some e \<and> isRetryable e (RetryableErrors ?cfg)"
  proof
    fix s :: "'a \<times> nat"
    obtain v n where s: "s = (v, n)" by (cases s)
    from assms(3) show "\<exists>e. fst (counted operation s) = Some e \<and> isRetryable e (RetryableErrors ?cfg)"
      by (simp add: s counted_apply r)
  qed
  have le: "1 \<le> MaxAttempts ?cfg" using assms(2) m by simp
  define j where "j = nat (MaxAttempts cfg - 1)"
  have n: "nat (MaxAttempts cfg) = Suc j"
    using assms(2) by (simp add: j_def)
  from DoLoop_exhausts [OF nc fails le, of rnd "InitialDelay ?cfg" None "(w, 0)" "[]"]
  have "err (Do ctx cfg rnd (counted operation) (w, 0)) =
          fst (counted operation (invoked (counted operation) j (w, 0)))"
    and "world (Do ctx cfg rnd (counted operation) (w, 0)) =
          invoked (counted operation) (Suc j) (w, 0)"
    by (simp_all add: Do_def Let_def m j_def del: invoked.simps)
  then show ?thesis
    by (simp add: n invoked_counted counted_apply del: invoked.simps)
qed

theorem Do_exhausts_attempts_witness:
  "nonCancelled Background \<and> 1 \<le> MaxAttempts DefaultConfig \<and>
   (\<forall>w. \<exists>e. fst (alwaysFails w) = Some e \<and> isRetryable e (RetryableErrors DefaultConfig)) \<and>
   snd (world (Do Background DefaultConfig halves (counted alwaysFails) (0, 0))) = 3 \<and>
   err (Do Background DefaultConfig halves (counted alwaysFails) (0, 0)) = Some (ErrorNew ''e3'')"
proof -
  have m: "1 \<le> MaxAttempts DefaultConfig" "MaxAttempts DefaultConfig = 3"
    by (simp_all add: DefaultConfig_def)
  have f: "\<forall>w. \<exists>e. fst (alwaysFails w) = Some e \<and> isRetryable e (RetryableErrors DefaultConfig)"
    using alwaysFails_fails by (simp add: DefaultConfig_def)
  have i: "invoked alwaysFails (3 - 1) 0 = 2"
    by (simp add: numeral_2_eq_2 alwaysFails_def)
  have e: "fst (alwaysFails 2) = Some (ErrorNew ''e3'')"
    by (simp add: alwaysFails_def)
  from Do_exhausts_attempts [OF nonCancelled_Background m(1) f, of halves 0]
  have "snd (world (Do Background DefaultConfig halves (counted alwaysFails) (0, 0))) = 3"
    and "err (Do Background DefaultConfig halves (counted alwaysFails) (0, 0)) =
         Some (ErrorNew ''e3'')"
    by (simp_all only: m(2) i e nat_numeral)
  with nonCancelled_Background m(1) f show ?thesis by blast
qed

text \<open>
  C7: with a non-empty list of retryable errors, an operation whose first invocation
  returns an error that \<^verbatim>\<open>errors.Is\<close> matches with none of them is invoked exactly once,
  and \<^verbatim>\<open>Do\<close> returns that error at once, with no wait. That there is a first
  invocation is part of the claim: the context is not done at the first poll and
  \<open>MaxAttempts\<close> is not negative.
\<close>

theorem Do_fails_fast:
  assumes "RetryableErrors cfg \<noteq> []"
    and "\<forall>t \<in> set (RetryableErrors cfg). \<not> errorsIs e t"
    and "fst (operation w) = Some e"
    and "\<not> doneAtPoll ctx 1"
    and "0 \<le> MaxAttempts cfg"
  shows "Do ctx cfg rnd (counted operation) (w, 0) =
           \<lparr>err = Some e, world = (snd (operation w), 1), slept = []\<rparr>"
proof -
  let ?cfg = "withDefaults cfg"
  have le: "1 \<le> MaxAttempts ?cfg" using assms(5) by (simp add: withDefaults_fields)
  have "\<not> isRetryable e (RetryableErrors ?cfg)"
    using assms(1,2) by (simp add: isRetryable_def withDefaults_fields list_ex_iff)
  with le assms(3,4) show ?thesis
    by (simp add: Do_def Let_def) (subst DoLoop.simps, simp add: counted_apply)
qed

theorem Do_fails_fast_witness:
  "RetryableErrors (DefaultConfig\<lparr>RetryableErrors := [ErrorNew ''e2'']\<rparr>) \<noteq> [] \<and>
   \<not> errorsIs (ErrorNew ''e1'') (ErrorNew ''e2'') \<and>
   fst (alwaysFails 0) = Some (ErrorNew ''e1'') \<and> \<not> doneAtPoll Background 1 \<and>
   Do Background (DefaultConfig\<lparr>RetryableErrors := [ErrorNew ''e2'']\<rparr>) halves
      (counted alwaysFails) (0, 0) =
     \<lparr>err = Some (ErrorNew ''e1''), world = (1, 1), slept = []\<rparr>"
proof -
  let ?cfg = "DefaultConfig\<lparr>RetryableErrors := [ErrorNew ''e2'']\<rparr>"
  have a: "RetryableErrors ?cfg \<noteq> []" by simp
  have b: "\<forall>t \<in> set (RetryableErrors ?cfg). \<not> errorsIs (ErrorNew ''e1'') t" by simp
  have c: "fst (alwaysFails 0) = Some (ErrorNew ''e1'')" by (simp add: alwaysFails_def)
  have d: "\<not> doneAtPoll Background 1" by (simp add: Background_def)
  have e: "0 \<le> MaxAttempts ?cfg" by (simp add: DefaultConfig_def)
  from Do_fails_fast [where cfg = ?cfg and e = "ErrorNew ''e1''" and operation = alwaysFails
         and w = 0 and ctx = Background and rnd = halves, OF a b c d e] c d
  show ?thesis by (simp add: alwaysFails_def)
qed

text \<open>
  C10: with an empty list of retryable errors \<^verbatim>\<open>isRetryable\<close> accepts every error;
  so, under a context that is never done and with \<open>MaxAttempts = n \<ge> 1\<close>, \<^verbatim>\<open>Do\<close>
  returns an error only after \<open>n\<close> invocations, and an operation that fails at every
  invocation, whatever its errors, is invoked \<open>n\<close> times.
\<close>

theorem empty_allow_list_retries_every_failure:
  assumes "nonCancelled ctx"
    and "RetryableErrors cfg = []"
    and "1 \<le> MaxAttempts cfg"
  shows "isRetryable e (RetryableErrors cfg) \<and>
         (err (Do ctx cfg rnd (counted operation) (w, 0)) \<noteq> None \<longrightarrow>
            snd (world (Do ctx cfg rnd (counted operation) (w, 0))) = nat (MaxAttempts cfg)) \<and>
         ((\<forall>v. fst (operation v) \<noteq> None) \<longrightarrow>
            err (Do ctx cfg rnd (counted operation) (w, 0)) \<noteq> None \<and>
            snd (world (Do ctx cfg rnd (counted operation) (w, 0))) = nat (MaxAttempts cfg))"
proof (intro conjI impI)
  let ?cfg = "withDefaults cfg"
  have m: "MaxAttempts ?cfg = MaxAttempts cfg" and r: "RetryableErrors ?cfg = []"
    using assms(2,3) by (simp_all add: withDefaults_fields)
  have nc: "\<forall>k. \<not> doneAtPoll ctx k \<and> \<not> doneInWait ctx k"
    using assms(1) by (simp add: nonCancelled_def)
  have le: "1 \<le> MaxAttempts ?cfg" using assms(3) m by simp
  have k: "Suc (nat (MaxAttempts cfg - 1)) = nat (MaxAttempts cfg)"
    using assms(3) by simp
  show "isRetryable e (RetryableErrors cfg)"
    using assms(2) by (simp add: isRetryable_def)
  have late: "err (Do ctx cfg rnd (counted operation) (w, 0)) \<noteq> None \<longrightarrow>
      snd (world (Do ctx cfg rnd (counted operation) (w, 0))) = nat (MaxAttempts cfg)"
    using DoLoop_empty_allow_list [OF nc r le, of rnd operation "InitialDelay ?cfg" None w 0 "[]"]
    by (simp add: Do_def Let_def m k)
  then show "snd (world (Do ctx cfg rnd (counted operation) (w, 0))) = nat (MaxAttempts cfg)"
    if "err (Do ctx cfg rnd (counted operation) (w, 0)) \<noteq> None"
    using that by simp
  assume all: "\<forall>v. fst (operation v) \<noteq> None"
  have fails: "\<forall>s. \<exists>e. fst (counted operation s) = Some e \<and> isRetryable e (RetryableErrors ?cfg)"
  proof
    fix s :: "'a \<times> nat"
    obtain v n where s: "s = (v, n)" by (cases s)
    from all show "\<exists>e. fst (counted operation s) = Some e \<and> isRetryable e (RetryableErrors ?cfg)"
      by (simp add: s counted_apply r isRetryable_def)
  qed
  from DoLoop_exhausts [OF nc fails le, of rnd "InitialDelay ?cfg" None "(w, 0)" "[]"] all
  show e: "err (Do ctx cfg rnd (counted operation) (w, 0)) \<noteq> None"
    by (simp add: Do_def Let_def counted_apply invoked_counted del: invoked.simps)
  with late show "snd (world (Do ctx cfg rnd (counted operation) (w, 0))) = nat (MaxAttempts cfg)"
    by simp
qed

theorem empty_allow_list_retries_every_failure_witness:
  "nonCancelled Background \<and> RetryableErrors DefaultConfig = [] \<and> 1 \<le> MaxAttempts DefaultConfig \<and>
   isRetryable (ErrorNew ''e1'') (RetryableErrors DefaultConfig) \<and>
   (\<forall>v. fst (alwaysFails v) \<noteq> None) \<and>
   err (Do Background DefaultConfig halves (counted alwaysFails) (0, 0)) \<noteq> None \<and>
   snd (world (Do Background DefaultConfig halves (counted alwaysFails) (0, 0))) = 3"
proof -
  have a: "RetryableErrors DefaultConfig = []" "1 \<le> MaxAttempts DefaultConfig"
    "MaxAttempts DefaultConfig = 3"
    by (simp_all add: DefaultConfig_def)
  have f: "\<forall>v. fst (alwaysFails v) \<noteq> None" by (simp add: alwaysFails_def)
  from empty_allow_list_retries_every_failure
         [OF nonCancelled_Background a(1) a(2), of "ErrorNew ''e1''" halves alwaysFails 0]
       nonCancelled_Background a f
  show ?thesis by simp
qed

section \<open>The rate limiter: proofs\<close>

subsection \<open>64-bit arithmetic within range\<close>

lemma wrap64_id: "- (2 ^ 63) \<le> x \<Longrightarrow> x < 2 ^ 63 \<Longrightarrow> wrap64 x = x"
  by (simp add: wrap64_def)

lemma timeSub_range: "\<bar>timeSub t u\<bar> \<le> 2 ^ 63"
  by (auto simp add: timeSub_def minDuration_def maxDuration_def)

lemma quo_le:
  assumes b: "b \<noteq> 0" and a: "\<bar>a\<bar> \<le> 2 ^ 63" and small: "2 ^ 63 div \<bar>b\<bar> < (2 ^ 63 :: int)"
  shows "quo a b \<le> 2 ^ 63 div \<bar>b\<bar>"
proof -
  let ?q = "sgn a * sgn b * (\<bar>a\<bar> div \<bar>b\<bar>)"
  have pos: "0 < \<bar>b\<bar>" using b by simp
  have d: "\<bar>a\<bar> div \<bar>b\<bar> \<le> 2 ^ 63 div \<bar>b\<bar>"
    using a pos by (simp add: zdiv_mono1)
  have d0: "0 \<le> \<bar>a\<bar> div \<bar>b\<bar>" using pos by (simp add: pos_imp_zdiv_nonneg_iff)
  have "\<bar>?q\<bar> = \<bar>sgn a\<bar> * \<bar>sgn b\<bar> * (\<bar>a\<bar> div \<bar>b\<bar>)"
    using d0 by (simp add: abs_mult)
  also have "\<dots> \<le> \<bar>a\<bar> div \<bar>b\<bar>"
    using d0 by (cases "a = 0") (simp_all add: b)
  finally have q: "\<bar>?q\<bar> \<le> 2 ^ 63 div \<bar>b\<bar>" using d by simp
  with small have "- (2 ^ 63) \<le> ?q" "?q < 2 ^ 63" by linarith+
  then have "wrap64 ?q = ?q" by (rule wrap64_id)
  then have "quo a b = ?q" by (simp add: quo_def)
  with q show ?thesis by linarith
qed

lemma refillAndTake_in_range:
  assumes ok: "limiterOK rl" and lo: "0 \<le> tokens b" and hi: "tokens b \<le> maxTokens rl"
  shows "\<exists>ok b'. refillAndTake rl b now = Inr (ok, b') \<and> 0 \<le> tokens b' \<and> tokens b' \<le> maxTokens rl"
proof -
  from ok have m0: "0 \<le> maxTokens rl" and tpr: "tokensPerReq rl = 1" and r: "refillRate rl \<noteq> 0"
    and bound: "maxTokens rl + 2 ^ 63 div \<bar>refillRate rl\<bar> < 2 ^ 63"
    by (simp_all add: limiterOK_def)
  define n where "n = tokensToAdd rl b now"
  have small: "2 ^ 63 div \<bar>refillRate rl\<bar> < (2 ^ 63 :: int)" using m0 bound by linarith
  have n_le: "n \<le> 2 ^ 63 div \<bar>refillRate rl\<bar>"
    unfolding n_def tokensToAdd_def by (rule quo_le [OF r timeSub_range small])
  define b1 where "b1 = (if 0 < n
       then b\<lparr>tokens := min_go (maxTokens rl) (wrap64 (tokens b + n)), lastRefill := now\<rparr>
       else b)"
  have b1: "0 \<le> tokens b1 \<and> tokens b1 \<le> maxTokens rl"
  proof (cases "0 < n")
    case True
    then have "- (2 ^ 63) \<le> tokens b + n" "tokens b + n < 2 ^ 63"
      using lo hi n_le bound by linarith+
    then have "wrap64 (tokens b + n) = tokens b + n" by (rule wrap64_id)
    with True lo m0 show ?thesis by (simp add: b1_def min_go_def)
  next
    case False
    with lo hi show ?thesis by (simp add: b1_def)
  qed
  have m63: "maxTokens rl < 2 ^ 63"
    using bound small pos_imp_zdiv_nonneg_iff [of "\<bar>refillRate rl\<bar>" "2 ^ 63"] r by simp
  have eq: "refillAndTake rl b now =
      (if 1 \<le> tokens b1 then Inr (True, b1\<lparr>tokens := wrap64 (tokens b1 - 1)\<rparr>) else Inr (False, b1))"
    using r by (simp add: refillAndTake_def Let_def n_def b1_def tpr)
  show ?thesis
  proof (cases "1 \<le> tokens b1")
    case True
    then have "- (2 ^ 63) \<le> tokens b1 - 1" "tokens b1 - 1 < 2 ^ 63" using b1 m63 by linarith+
    then have "wrap64 (tokens b1 - 1) = tokens b1 - 1" by (rule wrap64_id)
    with True b1 show ?thesis by (auto simp add: eq)
  next
    case False
    with b1 show ?thesis by (auto simp add: eq)
  qed
qed


subsection \<open>One call\<close>

lemma getBucket_cases:
  "getBucket rl key t0 = (b, rl1) \<Longrightarrow>
     (buckets rl key = Some b \<and> rl1 = rl) \<or>
     (buckets rl key = None \<and> b = \<lparr>tokens = maxTokens rl, lastRefill = t0\<rparr> \<and>
      rl1 = rl\<lparr>buckets := (buckets rl)(key \<mapsto> b)\<rparr>)"
  by (auto simp add: getBucket_def Let_def split: option.splits)

lemma getBucket_config:
  "getBucket rl key t0 = (b, rl1) \<Longrightarrow>
     maxTokens rl1 = maxTokens rl \<and> refillRate rl1 = refillRate rl \<and>
     tokensPerReq rl1 = tokensPerReq rl \<and> buckets rl1 key = Some b \<and>
     (\<forall>k. k \<noteq> key \<longrightarrow> buckets rl1 k = buckets rl k)"
  by (auto dest: getBucket_cases)

lemma allow_in_range:
  assumes ok: "limiterOK rl" and inv: "bucketsInRange rl"
  shows "\<exists>ok rl'. allow rl key t0 now = Inr (ok, rl') \<and> bucketsInRange rl' \<and> limiterOK rl'"
proof -
  obtain b rl1 where g: "getBucket rl key t0 = (b, rl1)" by (cases "getBucket rl key t0")
  note c = getBucket_config [OF g]
  from ok c have ok1: "limiterOK rl1" by (simp add: limiterOK_def)
  have b: "0 \<le> tokens b \<and> tokens b \<le> maxTokens rl1"
    using getBucket_cases [OF g] inv ok c by (auto simp add: bucketsInRange_def limiterOK_def)
  then obtain ans b' where t: "refillAndTake rl1 b now = Inr (ans, b')"
    and b': "0 \<le> tokens b'" "tokens b' \<le> maxTokens rl1"
    using refillAndTake_in_range [OF ok1, of b now] by blast
  let ?rl' = "rl1\<lparr>buckets := (buckets rl1)(key \<mapsto> b')\<rparr>"
  have a: "allow rl key t0 now = Inr (ans, ?rl')" by (simp add: allow_def g t)
  have "bucketsInRange ?rl'"
    unfolding bucketsInRange_def
  proof (intro allI impI)
    fix k x assume kx: "buckets ?rl' k = Some x"
    show "0 \<le> tokens x \<and> tokens x \<le> maxTokens ?rl'"
    proof (cases "k = key")
      case True with kx b' show ?thesis by simp
    next
      case False
      with kx c have "buckets rl k = Some x" by simp
      with inv c show ?thesis by (simp add: bucketsInRange_def)
    qed
  qed
  moreover from ok1 have "limiterOK ?rl'" by (simp add: limiterOK_def)
  ultimately show ?thesis using a by blast
qed

lemma allowSeq_in_range:
  assumes "limiterOK rl" and "bucketsInRange rl"
  shows "\<exists>oks rl'. allowSeq rl calls = Inr (oks, rl') \<and> bucketsInRange rl' \<and> limiterOK rl'"
  using assms
proof (induction calls arbitrary: rl)
  case Nil
  then show ?case by simp
next
  case (Cons c cs)
  obtain key t0 now where c: "c = (key, t0, now)" by (cases c)
  from allow_in_range [OF Cons.prems, of key t0 now]
  obtain ans rl1 where a: "allow rl key t0 now = Inr (ans, rl1)"
    and r1: "bucketsInRange rl1" "limiterOK rl1" by blast
  from Cons.IH [OF r1(2) r1(1)]
  obtain oks rl2 where s: "allowSeq rl1 cs = Inr (oks, rl2)"
    and r2: "bucketsInRange rl2" "limiterOK rl2" by blast
  show ?case by (simp add: c a s r2)
qed

lemma New_empty_in_range: "bucketsInRange (New cfg)"
  by (simp add: bucketsInRange_def New_def Let_def)

subsection \<open>The concrete limiters\<close>

lemma fivePerFiveSeconds_eq:
  "fivePerFiveSeconds = \<lparr>buckets = Map.empty, maxTokens = 5, refillRate = Second, tokensPerReq = 1\<rparr>"
  by (simp add: fivePerFiveSeconds_def New_def quo_def wrap64_def Second_def)

lemma limiterOK_five: "limiterOK fivePerFiveSeconds"
  by (simp add: fivePerFiveSeconds_eq limiterOK_def Second_def)

lemma afterFirstCall_reached:
  "allow fivePerFiveSeconds ''k'' 1000 1000 = Inr (True, afterFirstCall)"
  by (simp add: fivePerFiveSeconds_eq afterFirstCall_def allow_def getBucket_def refillAndTake_def
      tokensToAdd_def quo_def timeSub_def wrap64_def min_go_def minDuration_def maxDuration_def
      Second_def Let_def)

lemma five_at_once_then_one_a_second:
  "\<exists>rl'. allowSeq fivePerFiveSeconds burst =
     Inr ([True, True, True, True, True, False, True, False], rl') \<and>
     buckets rl' ''k'' = Some \<lparr>tokens = 0, lastRefill = 1000 + Second\<rparr>"
  by (simp add: fivePerFiveSeconds_eq burst_def allow_def getBucket_def refillAndTake_def
      tokensToAdd_def quo_def timeSub_def wrap64_def min_go_def minDuration_def maxDuration_def
      Second_def Let_def)


subsection \<open>The refill timestamp\<close>

text \<open>
  C8: a call of \<^verbatim>\<open>allow\<close> whose division does not panic and computes
  \<open>tokensToAdd = 0\<close> for the bucket \<open>b\<close> of the key (the one in the map, or the one
  just created) returns, and the bucket of the key afterwards has the \<open>lastRefill\<close> of
  \<open>b\<close>: at most its token count has changed. The buckets of the other keys are as
  before.
\<close>

theorem allow_keeps_lastRefill:
  assumes "refillRate rl \<noteq> 0"
    and "getBucket rl key t0 = (b, rl1)"
    and "tokensToAdd rl b now = 0"
  shows "\<exists>ok rl' b'. allow rl key t0 now = Inr (ok, rl') \<and>
           buckets rl' key = Some b' \<and> lastRefill b' = lastRefill b \<and>
           (\<forall>k. k \<noteq> key \<longrightarrow> buckets rl' k = buckets rl k)"
proof -
  note c = getBucket_config [OF assms(2)]
  have n: "tokensToAdd rl1 b now = 0" using assms(3) c by (simp add: tokensToAdd_def)
  have r: "refillRate rl1 \<noteq> 0" using assms(1) c by simp
  have t: "refillAndTake rl1 b now =
      (if tokensPerReq rl1 \<le> tokens b
       then Inr (True, b\<lparr>tokens := wrap64 (tokens b - tokensPerReq rl1)\<rparr>)
       else Inr (False, b))"
    using r n by (simp add: refillAndTake_def Let_def)
  show ?thesis
  proof (cases "tokensPerReq rl1 \<le> tokens b")
    case True
    let ?b' = "b\<lparr>tokens := wrap64 (tokens b - tokensPerReq rl1)\<rparr>"
    have "allow rl key t0 now = Inr (True, rl1\<lparr>buckets := (buckets rl1)(key \<mapsto> ?b')\<rparr>)"
      using True by (simp add: allow_def assms(2) t)
    moreover have "lastRefill ?b' = lastRefill b" by simp
    ultimately show ?thesis using c by fastforce
  next
    case False
    have "allow rl key t0 now = Inr (False, rl1\<lparr>buckets := (buckets rl1)(key \<mapsto> b)\<rparr>)"
      using False by (simp add: allow_def assms(2) t)
    then show ?thesis using c by fastforce
  qed
qed

theorem allow_keeps_lastRefill_witness:
  "refillRate afterFirstCall \<noteq> 0 \<and>
   getBucket afterFirstCall ''k'' 1001 = (\<lparr>tokens = 4, lastRefill = 1000\<rparr>, afterFirstCall) \<and>
   tokensToAdd afterFirstCall \<lparr>tokens = 4, lastRefill = 1000\<rparr> 1001 = 0 \<and>
   (\<exists>ok rl' b'. allow afterFirstCall ''k'' 1001 1001 = Inr (ok, rl') \<and>
      buckets rl' ''k'' = Some b' \<and> lastRefill b' = 1000)"
proof -
  have r: "refillRate afterFirstCall \<noteq> 0" by (simp add: afterFirstCall_def Second_def)
  have g: "getBucket afterFirstCall ''k'' 1001 = (\<lparr>tokens = 4, lastRefill = 1000\<rparr>, afterFirstCall)"
    by (simp add: getBucket_def afterFirstCall_def)
  have n: "tokensToAdd afterFirstCall \<lparr>tokens = 4, lastRefill = 1000\<rparr> 1001 = 0"
    by (simp add: tokensToAdd_def afterFirstCall_def quo_def timeSub_def wrap64_def
        minDuration_def maxDuration_def Second_def)
  from allow_keeps_lastRefill [OF r g n]
  have "\<exists>ok rl' b'. allow afterFirstCall ''k'' 1001 1001 = Inr (ok, rl') \<and>
      buckets rl' ''k'' = Some b' \<and> lastRefill b' = 1000"
    by simp blast
  with r g n show ?thesis by blast
qed

subsection \<open>The invariant of the buckets\<close>

text \<open>
  C9: from a limiter whose buckets all hold between zero and \<open>maxTokens\<close> tokens, every
  run of calls of \<^verbatim>\<open>allow\<close>, cut after any number \<open>n\<close> of its calls, returns and
  leaves a limiter whose buckets all hold between zero and \<open>maxTokens\<close> tokens: the
  invariant holds before the first call and after each one. The limiter is one that
  \<open>limiterOK\<close> admits; a limiter fresh from \<^verbatim>\<open>New\<close> has no bucket and satisfies
  the invariant (\<open>New_empty_in_range\<close>).
\<close>

theorem allow_keeps_tokens_in_range:
  assumes "limiterOK rl" and "bucketsInRange rl"
  shows "\<forall>n \<le> length calls. \<exists>oks rl'.
           allowSeq rl (take n calls) = Inr (oks, rl') \<and> bucketsInRange rl'"
  using allowSeq_in_range [OF assms] by blast

theorem allow_keeps_tokens_in_range_witness:
  "limiterOK fivePerFiveSeconds \<and> bucketsInRange fivePerFiveSeconds \<and>
   (6::nat) \<le> length burst \<and>
   (\<exists>oks rl'. allowSeq fivePerFiveSeconds (take 6 burst) = Inr (oks, rl') \<and> bucketsInRange rl')"
proof -
  have i: "bucketsInRange fivePerFiveSeconds"
    unfolding fivePerFiveSeconds_def by (rule New_empty_in_range)
  have l: "(6::nat) \<le> length burst" by (simp add: burst_def)
  from allow_keeps_tokens_in_range [OF limiterOK_five i, of burst] l
  have "\<exists>oks rl'. allowSeq fivePerFiveSeconds (take 6 burst) = Inr (oks, rl') \<and> bucketsInRange rl'"
    by blast
  with limiterOK_five i l show ?thesis by blast
qed

end
